theory Spec2Isabelle
  imports Complex_Main "HOL-Library.Char_ord" "HOL-Library.List_Lexorder" "HOL-Library.Multiset"
begin

section \<open>Data model\<close>

text \<open>
  The program (\<^verbatim>\<open>data_profiling.py\<close>) works on a pandas DataFrame. The embedding keeps
  what the program observes of it:

  \<^item> a float64 value is a rational or NaN (\<open>None\<close>); pandas uses NaN for a missing cell.
    Arithmetic is exact: rounding and the infinities of IEEE arithmetic are outside the
    model, and so are integers beyond the int64 range;
  \<^item> a column is either of a numeric dtype (\<open>NumCol\<close>: int64 or float64, a missing cell is
    NaN) or of object dtype holding Python strings (\<open>ObjCol\<close>, a missing cell is \<open>None\<close>).
    These are the dtypes \<^verbatim>\<open>read_csv\<close> gives to columns of numbers and of text; bool,
    datetime and mixed object columns are outside the model;
  \<^item> a DataFrame is the list of its (name, column) pairs in column order; the names are
    taken to be unique, as pandas hands back a sub-frame, not a column, for a repeated
    name;
  \<^item> a string is a list of bytes, the UTF-8 encoding of the Python string.
\<close>

type_synonym fl = "rat option"

datatype column = NumCol "fl list" | ObjCol "string option list"

type_synonym dataframe = "(string \<times> column) list"

text \<open>
  The tags \<^verbatim>\<open>"integer"\<close>, \<^verbatim>\<open>"float"\<close>, \<^verbatim>\<open>"currency"\<close> and \<^verbatim>\<open>"string"\<close> that
  \<^verbatim>\<open>_detect_col_dtypes\<close> stores; Python's \<^verbatim>\<open>None\<close> (no check succeeded) is \<open>None\<close> of
  \<open>col_type option\<close>.
\<close>

datatype col_type = T_integer | T_float | T_currency | T_string

text \<open>
  The exceptions the modelled code can raise. \<open>DataTypeMismatch\<close> is the condition named
  in the error-handling section of the specification (column name, offending value); no
  function of the program constructs it, it is here so that statements about it can be
  written.
\<close>

datatype exn =
    AttributeError
  | ValueError_float string
  | IntCastingNaNError
  | ValueError_parse string nat
  | TypeError
  | KeyError string
  | DataTypeMismatch string string

text \<open>
  Two library parsers are parameters of the model: Python's \<^verbatim>\<open>float(s)\<close>, which
  \<^verbatim>\<open>astype("float")\<close> applies to every string of an object column, and the parser of
  \<^verbatim>\<open>pd.to_numeric\<close>. Each returns \<open>None\<close> where the library raises, \<open>Some None\<close> for
  a NaN and \<open>Some (Some r)\<close> for a number.
\<close>

record parsers =
  py_float :: "string \<Rightarrow> fl option"
  pd_numeric :: "string \<Rightarrow> fl option"

text \<open>A cell of a summary table's label column, and a summary table with its two headers.\<close>

datatype cell = NaN | Num rat | Str string

record table =
  label_var :: string
  value_var :: string
  rows :: "(cell \<times> fl) list"


section \<open>pandas primitives\<close>

definition dropna :: "'a option list \<Rightarrow> 'a list" where
  "dropna xs = List.map_filter id xs"

definition isna_sum :: "'a option list \<Rightarrow> nat" where
  "isna_sum xs = length (filter (\<lambda>x. x = None) xs)"

text \<open>\<^verbatim>\<open>Series.sum()\<close> skips NaN; the sum of no value is 0.\<close>

definition sum_skipna :: "fl list \<Rightarrow> rat" where
  "sum_skipna xs = sum_list (dropna xs)"

text \<open>
  \<^verbatim>\<open>astype("float")\<close>: the identity on a numeric column; on an object column every string
  goes through \<^verbatim>\<open>float()\<close>, a missing cell stays NaN, the first string that does not parse
  raises ValueError.
\<close>

fun floats_of_strs :: "parsers \<Rightarrow> string option list \<Rightarrow> exn + fl list" where
  "floats_of_strs P [] = Inr []"
| "floats_of_strs P (None # ss) =
     (case floats_of_strs P ss of Inl e \<Rightarrow> Inl e | Inr vs \<Rightarrow> Inr (None # vs))"
| "floats_of_strs P (Some s # ss) =
     (case py_float P s of
        None \<Rightarrow> Inl (ValueError_float s)
      | Some v \<Rightarrow> (case floats_of_strs P ss of Inl e \<Rightarrow> Inl e | Inr vs \<Rightarrow> Inr (v # vs)))"

fun astype_float :: "parsers \<Rightarrow> column \<Rightarrow> exn + fl list" where
  "astype_float P (NumCol xs) = Inr xs"
| "astype_float P (ObjCol ss) = floats_of_strs P ss"

text \<open>
  \<^verbatim>\<open>astype("int")\<close> on float64: raises on a NaN, otherwise truncates towards zero.
\<close>

definition trunc :: "rat \<Rightarrow> int" where
  "trunc r = (if r < 0 then - \<lfloor>- r\<rfloor> else \<lfloor>r\<rfloor>)"

definition astype_int :: "fl list \<Rightarrow> exn + int list" where
  "astype_int xs = (if None \<in> set xs then Inl IntCastingNaNError else Inr (map trunc (dropna xs)))"

text \<open>
  \<^verbatim>\<open>astype("string")\<close> turns every cell into text and cannot fail on the columns of the
  model; the program discards its result.
\<close>

definition astype_string_ok :: "column \<Rightarrow> bool" where
  "astype_string_ok col = True"

text \<open>
  \<^verbatim>\<open>pd.to_numeric\<close> on an object column of strings: a missing cell stays NaN, the first
  string the parser refuses raises ValueError ("Unable to parse string ... at position
  ...").
\<close>

fun to_numeric_from :: "parsers \<Rightarrow> nat \<Rightarrow> string option list \<Rightarrow> exn + fl list" where
  "to_numeric_from P i [] = Inr []"
| "to_numeric_from P i (None # ss) =
     (case to_numeric_from P (Suc i) ss of Inl e \<Rightarrow> Inl e | Inr vs \<Rightarrow> Inr (None # vs))"
| "to_numeric_from P i (Some s # ss) =
     (case pd_numeric P s of
        None \<Rightarrow> Inl (ValueError_parse s i)
      | Some v \<Rightarrow>
          (case to_numeric_from P (Suc i) ss of Inl e \<Rightarrow> Inl e | Inr vs \<Rightarrow> Inr (v # vs)))"

definition to_numeric :: "parsers \<Rightarrow> string option list \<Rightarrow> exn + fl list" where
  "to_numeric P ss = to_numeric_from P 0 ss"


section \<open>\<^verbatim>\<open>_currency_cleaner\<close>\<close>

text \<open>
  \<^verbatim>\<open>str.replace(old, "", regex=False)\<close>: every non-overlapping occurrence of \<open>old\<close>,
  found from the left, is removed.
\<close>

fun str_remove :: "string \<Rightarrow> string \<Rightarrow> string" where
  "str_remove old [] = []"
| "str_remove old (c # cs) =
     (if old \<noteq> [] \<and> take (length old) (c # cs) = old
      then str_remove old (drop (length old - 1) cs)
      else c # str_remove old cs)"

text \<open>The ten substrings in the order of the source; the non-ASCII symbols in UTF-8.\<close>

definition currency_tokens :: "string list" where
  "currency_tokens =
     [''$'',
      [CHR 0xE2, CHR 0x82, CHR 0xAC],
      [CHR 0xC2, CHR 0xA3],
      ''USD'', ''GBP'', ''EUR'',
      [CHR 0xC2, CHR 0xA5],
      [CHR 0xE2, CHR 0x82, CHR 0xA3],
      [CHR 0xE2, CHR 0x82, CHR 0xB9],
      '','']"

definition clean_str :: "string \<Rightarrow> string" where
  "clean_str s = fold str_remove currency_tokens s"

text \<open>
  The \<^verbatim>\<open>.str\<close> accessor exists only on a column of strings: on a numeric column it raises
  AttributeError ("Can only use .str accessor with string values"). A missing cell stays
  missing.
\<close>

fun currency_cleaner :: "column \<Rightarrow> exn + string option list" where
  "currency_cleaner (NumCol xs) = Inl AttributeError"
| "currency_cleaner (ObjCol ss) = Inr (map (map_option clean_str) ss)"


section \<open>\<^verbatim>\<open>_detect_col_dtypes\<close>\<close>

text \<open>
  The condition of the Integer check and of the Float check, with the exception the
  \<^verbatim>\<open>try\<close> block would catch as \<open>Inl\<close>.
\<close>

definition integer_check :: "parsers \<Rightarrow> column \<Rightarrow> exn + bool" where
  "integer_check P col =
     (case astype_float P col of
        Inl e \<Rightarrow> Inl e
      | Inr fs \<Rightarrow>
          (case astype_int fs of
             Inl e \<Rightarrow> Inl e
           | Inr is \<Rightarrow> Inr (of_int (sum_list is) = sum_skipna fs)))"

definition float_check :: "parsers \<Rightarrow> column \<Rightarrow> exn + bool" where
  "float_check P col =
     (case astype_float P col of
        Inl e \<Rightarrow> Inl e
      | Inr fs \<Rightarrow> Inr (0 < sum_skipna fs))"

text \<open>
  One iteration of the loop of \<^verbatim>\<open>_detect_col_dtypes\<close>: the value stored for the column,
  or the exception that leaves the function. The call of \<^verbatim>\<open>_currency_cleaner\<close> stands
  before its \<^verbatim>\<open>try\<close>, so its exception is not caught.
\<close>

definition detect_col_dtype :: "parsers \<Rightarrow> column \<Rightarrow> exn + col_type option" where
  "detect_col_dtype P col =
     (if integer_check P col = Inr True then Inr (Some T_integer)
      else if float_check P col = Inr True then Inr (Some T_float)
      else
        (case currency_cleaner col of
           Inl e \<Rightarrow> Inl e
         | Inr attempted_clean \<Rightarrow>
             (case to_numeric P attempted_clean of
                Inr _ \<Rightarrow> Inr (Some T_currency)
              | Inl _ \<Rightarrow>
                  if astype_string_ok col then Inr (Some T_string) else Inr None)))"

fun detect_col_dtypes :: "parsers \<Rightarrow> dataframe \<Rightarrow> exn + (string \<times> col_type option) list" where
  "detect_col_dtypes P [] = Inr []"
| "detect_col_dtypes P ((name, col) # df) =
     (case detect_col_dtype P col of
        Inl e \<Rightarrow> Inl e
      | Inr ty \<Rightarrow>
          (case detect_col_dtypes P df of
             Inl e \<Rightarrow> Inl e
           | Inr tys \<Rightarrow> Inr ((name, ty) # tys)))"


section \<open>\<^verbatim>\<open>numpy.histogram\<close> and the bin labels\<close>

text \<open>
  \<^verbatim>\<open>np.histogram(data, bins=10)\<close> on finite data: the range is (0, 1) for no data,
  the minimum and maximum otherwise, widened by one half on each side when they are equal;
  the edges are \<^verbatim>\<open>linspace(first, last, 11)\<close>; a value goes to the bin of index
  \<open>\<lfloor>(x - first) / (last - first) * 10\<rfloor>\<close>, the maximum to the last bin.
\<close>

fun outer_edges :: "rat list \<Rightarrow> rat \<times> rat" where
  "outer_edges [] = (0, 1)"
| "outer_edges (x # xs) =
     (let first_edge = fold min xs x; last_edge = fold max xs x
      in if first_edge = last_edge then (first_edge - 1 / 2, last_edge + 1 / 2)
         else (first_edge, last_edge))"

definition linspace :: "rat \<Rightarrow> rat \<Rightarrow> nat \<Rightarrow> rat list" where
  "linspace start stop n = map (\<lambda>i. start + of_nat i * ((stop - start) / of_nat n)) [0..<Suc n]"

definition bin_index :: "rat \<Rightarrow> rat \<Rightarrow> nat \<Rightarrow> rat \<Rightarrow> nat" where
  "bin_index first_edge last_edge n x =
     (let i = nat \<lfloor>(x - first_edge) / (last_edge - first_edge) * of_nat n\<rfloor>
      in if i = n then n - 1 else i)"

definition nbins :: nat where
  "nbins = 10"

definition histogram :: "rat list \<Rightarrow> nat list \<times> rat list" where
  "histogram data =
     (case outer_edges data of
        (first_edge, last_edge) \<Rightarrow>
          (map (\<lambda>i. length (filter (\<lambda>x. bin_index first_edge last_edge nbins x = i) data))
             [0..<nbins],
           linspace first_edge last_edge nbins))"

text \<open>
  What \<^verbatim>\<open>np.histogram\<close> receives: the present values of a numeric column. On strings it
  raises TypeError (\<^verbatim>\<open>isfinite\<close> of the minimum); with no present value it never looks
  at one.
\<close>

fun histogram_data :: "column \<Rightarrow> exn + rat list" where
  "histogram_data (NumCol xs) = Inr (dropna xs)"
| "histogram_data (ObjCol ss) = (if dropna ss = [] then Inr [] else Inl TypeError)"

fun count_nulls :: "column \<Rightarrow> nat" where
  "count_nulls (NumCol xs) = isna_sum xs"
| "count_nulls (ObjCol ss) = isna_sum ss"

text \<open>
  The format specification of the source is \<^verbatim>\<open>" ,.0f"\<close>: the space is the sign option
  (a space before a number that is not negative, a minus sign before a negative one), the
  comma groups the digits by three, \<^verbatim>\<open>.0f\<close> rounds to no decimal place, a tie to the even
  neighbour.
\<close>

fun digits_of :: "nat \<Rightarrow> string" where
  "digits_of n =
     (if n < 10 then [''0123456789'' ! n]
      else digits_of (n div 10) @ [''0123456789'' ! (n mod 10)])"

fun group_thousands :: "string \<Rightarrow> string" where
  "group_thousands ds =
     (if length ds \<le> 3 then ds
      else group_thousands (take (length ds - 3) ds) @ '','' @ drop (length ds - 3) ds)"

declare digits_of.simps [simp del] group_thousands.simps [simp del]

definition round_half_even :: "rat \<Rightarrow> nat" where
  "round_half_even x =
     (let f = \<lfloor>x\<rfloor>; d = x - of_int f
      in nat (if d < 1 / 2 then f else if 1 / 2 < d then f + 1 else if even f then f else f + 1))"

definition format_f0 :: "rat \<Rightarrow> string" where
  "format_f0 x =
     (if x < 0 then ''-'' else '' '') @ group_thousands (digits_of (round_half_even \<bar>x\<bar>))"

definition bin_label :: "rat list \<Rightarrow> nat \<Rightarrow> string" where
  "bin_label edges idx = format_f0 (edges ! idx) @ '' to <'' @ format_f0 (edges ! Suc idx)"

text \<open>
  A Python dict as the list of its items in insertion order: storing under a key that is
  present replaces the value and keeps the position.
\<close>

fun dict_set :: "('k \<times> 'v) list \<Rightarrow> 'k \<Rightarrow> 'v \<Rightarrow> ('k \<times> 'v) list" where
  "dict_set [] k v = [(k, v)]"
| "dict_set ((k', v') # d) k v = (if k' = k then (k, v) # d else (k', v') # dict_set d k v)"

text \<open>The dict comprehension \<^verbatim>\<open>{label(idx): count for idx, count in enumerate(freqs)}\<close>.\<close>

definition labelled_bins :: "nat list \<Rightarrow> rat list \<Rightarrow> (string \<times> nat) list" where
  "labelled_bins freqs edges =
     fold (\<lambda>idx d. dict_set d (bin_label edges idx) (freqs ! idx)) [0..<length freqs] []"


section \<open>\<^verbatim>\<open>_generate_frequency_bins\<close>\<close>

text \<open>
  \<^verbatim>\<open>transform(lambda x: x / x.sum())\<close> tries the function on every element first; a
  Python int has no \<^verbatim>\<open>sum\<close>, so the function is applied to the whole column: every count
  is divided by the sum of the counts of the table. The assignment back into the column
  of counts is taken to store the fractions (pandas upcasts the column).

  True division of two counts in numpy: 0 / 0 is NaN. A positive count over 0 would be an
  infinity; it does not occur below, where the divisor is the sum of the counts divided.
\<close>

definition true_div :: "nat \<Rightarrow> nat \<Rightarrow> fl" where
  "true_div c s = (if s = 0 then None else Some (of_nat c / of_nat s))"

definition normalize_rows :: "(cell \<times> nat) list \<Rightarrow> (cell \<times> fl) list" where
  "normalize_rows rs = (let s = sum_list (map snd rs) in map (\<lambda>(l, c). (l, true_div c s)) rs)"

definition count_rows :: "(cell \<times> nat) list \<Rightarrow> (cell \<times> fl) list" where
  "count_rows rs = map (\<lambda>(l, c). (l, Some (of_nat c))) rs"

text \<open>
  The rows before normalisation: the count of nulls first, then the items of the dict of
  labelled bins.
\<close>

definition bin_rows :: "nat \<Rightarrow> rat list \<Rightarrow> (cell \<times> nat) list" where
  "bin_rows nulls data =
     (case histogram data of
        (freqs, edges) \<Rightarrow> (NaN, nulls) # map (\<lambda>(l, c). (Str l, c)) (labelled_bins freqs edges))"

definition generate_frequency_bins :: "string \<Rightarrow> column \<Rightarrow> bool \<Rightarrow> exn + table" where
  "generate_frequency_bins fieldname col normalise =
     (let col_prefix = (if normalise then ''pct'' else ''count'')
      in case histogram_data col of
           Inl e \<Rightarrow> Inl e
         | Inr data \<Rightarrow>
             Inr \<lparr>label_var = ''bins|'' @ fieldname,
                  value_var = col_prefix @ ''|'' @ fieldname,
                  rows = (if normalise then normalize_rows (bin_rows (count_nulls col) data)
                          else count_rows (bin_rows (count_nulls col) data))\<rparr>)"


section \<open>\<^verbatim>\<open>value_counts\<close> and \<^verbatim>\<open>sort_values\<close>\<close>

text \<open>
  \<^verbatim>\<open>value_counts\<close>: one row per distinct value, in the order of first appearance, then
  sorted by count, largest first, rows of equal count keeping their order. With
  \<^verbatim>\<open>dropna=True\<close> (the default) missing cells are left out; with \<^verbatim>\<open>dropna=False\<close>
  they are one more value.
\<close>

definition unique :: "'a list \<Rightarrow> 'a list" where
  "unique xs = rev (remdups (rev xs))"

definition value_counts :: "bool \<Rightarrow> 'a option list \<Rightarrow> ('a option \<times> nat) list" where
  "value_counts dropna_flag xs =
     (let ys = (if dropna_flag then filter (\<lambda>x. x \<noteq> None) xs else xs)
      in sort_key (\<lambda>(v, c). - int c) (map (\<lambda>v. (v, count_list ys v)) (unique ys)))"

text \<open>\<^verbatim>\<open>len(_df[col].value_counts().index)\<close>: the number of distinct present values.\<close>

fun nunique :: "column \<Rightarrow> nat" where
  "nunique (NumCol xs) = length (value_counts True xs)"
| "nunique (ObjCol ss) = length (value_counts True ss)"

text \<open>
  \<^verbatim>\<open>sort_values(by=col, ascending=True)\<close> sorts the rows with a present label and puts
  the row of the missing label last; \<^verbatim>\<open>sort_values(by=..., ascending=False)\<close> on the
  measure is taken to keep rows of equal measure in their order.
\<close>

definition sort_by_label :: "('a::linorder option \<times> rat) list \<Rightarrow> ('a option \<times> rat) list" where
  "sort_by_label tab =
     map (\<lambda>(a, v). (Some a, v)) (sort_key fst (List.map_filter (\<lambda>(l, v). map_option (\<lambda>a. (a, v)) l) tab))
     @ filter (\<lambda>(l, v). l = None) tab"

definition sort_by_measure_desc :: "('a option \<times> rat) list \<Rightarrow> ('a option \<times> rat) list" where
  "sort_by_measure_desc tab = sort_key (\<lambda>(l, v). - v) tab"

text \<open>\<^verbatim>\<open>str.lower()\<close>, on the bytes of the ASCII letters.\<close>

definition lower_char :: "char \<Rightarrow> char" where
  "lower_char c = (if CHR ''A'' \<le> c \<and> c \<le> CHR ''Z'' then char_of (of_char c + (32::nat)) else c)"

definition lower :: "string \<Rightarrow> string" where
  "lower s = map lower_char s"


section \<open>\<^verbatim>\<open>_count_distinct_excel\<close>\<close>

text \<open>
  The branch of exact counts (lines 165 to 182): \<^verbatim>\<open>value_counts(dropna=False,
  normalize=normalize)\<close>, then the sort chosen by \<^verbatim>\<open>sort_by\<close>.
\<close>

definition exact_rows :: "'a::linorder option list \<Rightarrow> string \<Rightarrow> bool \<Rightarrow> ('a option \<times> rat) list" where
  "exact_rows xs sort_by normalise =
     (let vc = value_counts False xs;
          total = sum_list (map snd vc);
          tab = map (\<lambda>(v, c). (v, if normalise then of_nat c / of_nat total else of_nat c)) vc
      in if lower sort_by = ''index'' then sort_by_label tab else sort_by_measure_desc tab)"

definition num_cell :: "rat option \<Rightarrow> cell" where
  "num_cell l = (case l of None \<Rightarrow> NaN | Some r \<Rightarrow> Num r)"

definition str_cell :: "string option \<Rightarrow> cell" where
  "str_cell l = (case l of None \<Rightarrow> NaN | Some s \<Rightarrow> Str s)"

fun cells :: "column \<Rightarrow> cell list" where
  "cells (NumCol xs) = map num_cell xs"
| "cells (ObjCol ss) = map str_cell ss"

fun exact_cells :: "column \<Rightarrow> string \<Rightarrow> bool \<Rightarrow> (cell \<times> fl) list" where
  "exact_cells (NumCol xs) sort_by normalise =
     map (\<lambda>(l, v). (num_cell l, Some v)) (exact_rows xs sort_by normalise)"
| "exact_cells (ObjCol ss) sort_by normalise =
     map (\<lambda>(l, v). (str_cell l, Some v)) (exact_rows ss sort_by normalise)"

definition exact_table :: "string \<Rightarrow> column \<Rightarrow> string \<Rightarrow> bool \<Rightarrow> table" where
  "exact_table col values sort_by normalise =
     (let field_prefix = (if normalise then ''pct|'' else ''count|'')
      in \<lparr>label_var = col, value_var = field_prefix @ col,
          rows = exact_cells values sort_by normalise\<rparr>)"

text \<open>
  The column after line 161: a column tagged currency is replaced by the numbers parsed
  from its cleaned strings; an exception of the cleaner or of \<^verbatim>\<open>pd.to_numeric\<close> leaves
  the function.
\<close>

definition clean_if_currency :: "parsers \<Rightarrow> col_type option \<Rightarrow> column \<Rightarrow> exn + column" where
  "clean_if_currency P ty values =
     (if ty = Some T_currency
      then (case currency_cleaner values of
              Inl e \<Rightarrow> Inl e
            | Inr cleaned \<Rightarrow>
                (case to_numeric P cleaned of Inl e \<Rightarrow> Inl e | Inr nums \<Rightarrow> Inr (NumCol nums)))
      else Inr values)"

text \<open>
  The body of the loop over the columns, for a column \<open>col\<close> with values \<open>values\<close> and
  tag \<open>ty = col_types[col]\<close>: the column as it is left in the frame, and its summary table.
\<close>

definition summarize_column ::
  "parsers \<Rightarrow> string \<Rightarrow> col_type option \<Rightarrow> column \<Rightarrow> string \<Rightarrow> bool \<Rightarrow> exn + column \<times> table" where
  "summarize_column P col ty values sort_by normalise =
     (case clean_if_currency P ty values of
        Inl e \<Rightarrow> Inl e
      | Inr values' \<Rightarrow>
          if ty = Some T_string \<or> nunique values' < 10
          then Inr (values', exact_table col values' sort_by normalise)
          else (case generate_frequency_bins col values' normalise of
                  Inl e \<Rightarrow> Inl e
                | Inr t \<Rightarrow> Inr (values', t)))"

fun summarize_columns ::
  "parsers \<Rightarrow> (string \<times> col_type option) list \<Rightarrow> string \<Rightarrow> bool \<Rightarrow> dataframe \<Rightarrow>
   exn + dataframe \<times> (string \<times> table) list" where
  "summarize_columns P col_types sort_by normalise [] = Inr ([], [])"
| "summarize_columns P col_types sort_by normalise ((col, values) # df) =
     (case map_of col_types col of
        None \<Rightarrow> Inl (KeyError col)
      | Some ty \<Rightarrow>
          (case summarize_column P col ty values sort_by normalise of
             Inl e \<Rightarrow> Inl e
           | Inr (values', t) \<Rightarrow>
               (case summarize_columns P col_types sort_by normalise df of
                  Inl e \<Rightarrow> Inl e
                | Inr (df', out) \<Rightarrow> Inr ((col, values') # df', (col, t) # out))))"

text \<open>
  \<^verbatim>\<open>_count_distinct_excel\<close>: the frame as the call leaves it (the currency columns are
  overwritten in place) and the dict of summary tables, in column order.
\<close>

definition count_distinct_excel ::
  "parsers \<Rightarrow> dataframe \<Rightarrow> string \<Rightarrow> bool \<Rightarrow> exn + dataframe \<times> (string \<times> table) list" where
  "count_distinct_excel P df sort_by normalise =
     (case detect_col_dtypes P df of
        Inl e \<Rightarrow> Inl e
      | Inr col_types \<Rightarrow> summarize_columns P col_types sort_by normalise df)"


section \<open>Orders on the cells of a summary table\<close>

text \<open>
  The order of \<^verbatim>\<open>sort_values\<close> on a label column: numbers by value, strings by code
  point, the missing label after every present one. A number and a string are not
  compared. For the measure column, \<open>fl_le\<close> is \<open>\<le>\<close> on floats; a comparison with NaN is
  false.
\<close>

fun cell_less :: "cell \<Rightarrow> cell \<Rightarrow> bool" where
  "cell_less (Num a) (Num b) = (a < b)"
| "cell_less (Str a) (Str b) = (a < b)"
| "cell_less (Num a) NaN = True"
| "cell_less (Str a) NaN = True"
| "cell_less _ _ = False"

fun fl_le :: "fl \<Rightarrow> fl \<Rightarrow> bool" where
  "fl_le (Some a) (Some b) = (a \<le> b)"
| "fl_le _ _ = False"


section \<open>Concrete parsers for the examples\<close>

text \<open>
  The theorems below hold for every pair of parsers. The examples need a concrete pair:
  \<open>digit_parsers\<close> accepts exactly the non-empty strings of ASCII digits and reads them
  in base ten. Python's \<^verbatim>\<open>float\<close> and \<^verbatim>\<open>pd.to_numeric\<close> agree with it on these strings
  and on non-empty strings of letters that spell no number (such as \<^verbatim>\<open>"abc"\<close>); the
  examples use no other string.
\<close>

definition digit_value :: "char \<Rightarrow> nat option" where
  "digit_value c = (if CHR ''0'' \<le> c \<and> c \<le> CHR ''9'' then Some (of_char c - 48) else None)"

fun digits_value :: "nat \<Rightarrow> string \<Rightarrow> nat option" where
  "digits_value acc [] = Some acc"
| "digits_value acc (c # cs) =
     (case digit_value c of None \<Rightarrow> None | Some d \<Rightarrow> digits_value (10 * acc + d) cs)"

definition parse_digits :: "string \<Rightarrow> fl option" where
  "parse_digits s =
     (if s = [] then None else map_option (\<lambda>n. Some (of_nat n)) (digits_value 0 s))"

definition digit_parsers :: parsers where
  "digit_parsers = \<lparr>py_float = parse_digits, pd_numeric = parse_digits\<rparr>"

text \<open>Ten proportions, 0.0 to 0.9: ten distinct values, so the column is binned.\<close>

definition proportions :: column where
  "proportions =
     NumCol [Some 0, Some (1 / 10), Some (2 / 10), Some (3 / 10), Some (4 / 10),
             Some (5 / 10), Some (6 / 10), Some (7 / 10), Some (8 / 10), Some (9 / 10)]"

text \<open>Eleven values 0, 10, ..., 100: the edges of the ten bins are the values themselves.\<close>

definition decades :: column where
  "decades =
     NumCol [Some 0, Some 10, Some 20, Some 30, Some 40, Some 50, Some 60, Some 70, Some 80,
             Some 90, Some 100]"


section \<open>Auxiliary lemmas\<close>









subsection \<open>Exact counts: the rows are a permutation of the distinct values\<close>

lemma present_rows_eq:
  "map (\<lambda>(a, v). (Some a, v)) (List.map_filter (\<lambda>(l, v). map_option (\<lambda>a. (a, v)) l) tab)
     = filter (\<lambda>(l, v). l \<noteq> None) tab"
  by (induction tab) (auto simp: List.map_filter_simps split: option.splits)

lemma mset_sort_by_label: "mset (sort_by_label tab) = mset tab"
proof -
  let ?P = "List.map_filter (\<lambda>(l, v). map_option (\<lambda>a. (a, v)) l) tab"
  have "mset (map (\<lambda>(a, v). (Some a, v)) (sort_key fst ?P)) = mset (map (\<lambda>(a, v). (Some a, v)) ?P)"
    by simp
  also have "\<dots> = mset (filter (\<lambda>(l, v). l \<noteq> None) tab)"
    by (simp only: present_rows_eq)
  finally have a: "mset (map (\<lambda>(a, v). (Some a, v)) (sort_key fst ?P)) = filter_mset (\<lambda>(l, v). l \<noteq> None) (mset tab)"
    by simp
  have b: "mset (filter (\<lambda>(l, v). l = None) tab) = filter_mset (\<lambda>x. \<not> (case x of (l, v) \<Rightarrow> l \<noteq> None)) (mset tab)"
    by (simp add: case_prod_beta)
  show ?thesis
    unfolding sort_by_label_def mset_append a b by (rule multiset_partition [symmetric])
qed

lemma mset_sort_by_measure_desc: "mset (sort_by_measure_desc tab) = mset tab"
  by (simp add: sort_by_measure_desc_def)

lemma set_unique: "set (unique xs) = set xs"
  by (simp add: unique_def)

lemma distinct_unique: "distinct (unique xs)"
  by (simp add: unique_def)

lemma mset_value_counts_all:
  "mset (value_counts False xs) = mset (map (\<lambda>v. (v, count_list xs v)) (unique xs))"
  by (simp add: value_counts_def)

lemma mset_exact_rows:
  "mset (exact_rows xs sort_by normalise) =
     mset (map (\<lambda>v. (v, if normalise then of_nat (count_list xs v) / of_nat (sum_list (map snd (value_counts False xs)))
                         else of_nat (count_list xs v))) (unique xs))"
proof -
  let ?t = "sum_list (map snd (value_counts False xs))"
  let ?f = "\<lambda>(v, c). (v, if normalise then of_nat c / of_nat ?t else (of_nat c :: rat))"
  have "mset (exact_rows xs sort_by normalise) = mset (map ?f (value_counts False xs))"
    by (simp add: exact_rows_def Let_def mset_sort_by_label mset_sort_by_measure_desc del: mset_map)
  also have "\<dots> = image_mset ?f (mset (value_counts False xs))" by simp
  also have "\<dots> = image_mset ?f (mset (map (\<lambda>v. (v, count_list xs v)) (unique xs)))"
    by (simp only: mset_value_counts_all)
  also have "\<dots> = mset (map (\<lambda>v. (v, if normalise then of_nat (count_list xs v) / of_nat ?t
                         else of_nat (count_list xs v))) (unique xs))"
    by (simp add: image_mset.compositionality comp_def)
  finally show ?thesis .
qed

lemma mset_labels_exact_rows: "mset (map fst (exact_rows xs sort_by normalise)) = mset (unique xs)"
proof -
  have "mset (map fst (exact_rows xs sort_by normalise)) = image_mset fst (mset (exact_rows xs sort_by normalise))"
    by simp
  also have "\<dots> = mset (unique xs)"
    by (simp only: mset_exact_rows) (simp add: image_mset.compositionality comp_def)
  finally show ?thesis .
qed

lemma distinct_labels_exact_rows: "distinct (map fst (exact_rows xs sort_by normalise))"
  using mset_labels_exact_rows [of xs sort_by normalise] distinct_unique [of xs]
  by (metis mset_eq_imp_distinct_iff)

lemma set_labels_exact_rows: "set (map fst (exact_rows xs sort_by normalise)) = set xs"
  using mset_labels_exact_rows [of xs sort_by normalise] set_unique [of xs]
  by (metis mset_eq_setD)

lemma set_exact_rows_counts:
  "set (exact_rows xs sort_by False) = (\<lambda>v. (v, of_nat (count_list xs v))) ` set xs"
proof -
  have "set (exact_rows xs sort_by False) = set (map (\<lambda>v. (v, (of_nat (count_list xs v) :: rat))) (unique xs))"
    using mset_exact_rows [of xs sort_by False] by (metis (no_types, lifting) mset_eq_setD map_eq_conv)
  then show ?thesis by (simp add: set_unique)
qed

lemma inj_num_cell: "inj num_cell"
  by (auto simp: inj_on_def num_cell_def split: option.splits)

lemma inj_str_cell: "inj str_cell"
  by (auto simp: inj_on_def str_cell_def split: option.splits)

lemma count_list_inj_map: "inj f \<Longrightarrow> count_list (map f xs) (f x) = count_list xs x"
  by (induction xs) (auto simp: inj_on_def)

lemma labels_exact_cells:
  "map fst (exact_cells (NumCol xs) sort_by normalise) = map num_cell (map fst (exact_rows xs sort_by normalise))"
  "map fst (exact_cells (ObjCol ss) sort_by normalise) = map str_cell (map fst (exact_rows ss sort_by normalise))"
  by (simp_all add: case_prod_beta comp_def)

lemma set_labels_exact_cells: "set (map fst (exact_cells vals sort_by normalise)) = set (cells vals)"
proof (cases vals)
  case (NumCol xs)
  then show ?thesis
    by (simp only: labels_exact_cells cells.simps set_map set_labels_exact_rows [simplified])
next
  case (ObjCol ss)
  then show ?thesis
    by (simp only: labels_exact_cells cells.simps set_map set_labels_exact_rows [simplified])
qed

lemma distinct_labels_exact_cells: "distinct (map fst (exact_cells vals sort_by normalise))"
proof (cases vals)
  case (NumCol xs)
  have "distinct (map num_cell (map fst (exact_rows xs sort_by normalise)))"
    using distinct_labels_exact_rows [of xs sort_by normalise] inj_num_cell
    by (simp only: distinct_map) (auto intro: inj_on_subset)
  with NumCol show ?thesis by (simp only: labels_exact_cells)
next
  case (ObjCol ss)
  have "distinct (map str_cell (map fst (exact_rows ss sort_by normalise)))"
    using distinct_labels_exact_rows [of ss sort_by normalise] inj_str_cell
    by (simp only: distinct_map) (auto intro: inj_on_subset)
  with ObjCol show ?thesis by (simp only: labels_exact_cells)
qed

lemma counts_exact_cells:
  assumes "(l, v) \<in> set (exact_cells vals sort_by False)"
  shows "v = Some (of_nat (count_list (cells vals) l))"
proof (cases vals)
  case (NumCol xs)
  with assms obtain a r where ar: "(a, r) \<in> set (exact_rows xs sort_by False)" "l = num_cell a" "v = Some r"
    by auto
  from ar(1) have "r = of_nat (count_list xs a)"
    by (auto simp: set_exact_rows_counts)
  with ar NumCol show ?thesis by (simp add: count_list_inj_map [OF inj_num_cell])
next
  case (ObjCol ss)
  with assms obtain a r where ar: "(a, r) \<in> set (exact_rows ss sort_by False)" "l = str_cell a" "v = Some r"
    by auto
  from ar(1) have "r = of_nat (count_list ss a)"
    by (auto simp: set_exact_rows_counts)
  with ar ObjCol show ?thesis by (simp add: count_list_inj_map [OF inj_str_cell])
qed

lemma NaN_in_cells: "(NaN \<in> set (cells vals)) = (0 < count_nulls vals)"
proof -
  have a: "(NaN \<in> num_cell ` set xs) = (None \<in> set xs)" for xs
    by (auto simp: num_cell_def split: option.splits)
  have b: "(NaN \<in> str_cell ` set ss) = (None \<in> set ss)" for ss
    by (auto simp: str_cell_def split: option.splits)
  have c: "(0 < isna_sum ys) = (None \<in> set ys)" for ys :: "'b option list"
    by (auto simp: isna_sum_def filter_empty_conv)
  show ?thesis by (cases vals) (simp_all add: a b c)
qed

subsection \<open>Exact counts: the two sort orders\<close>

lemma labels_sort_by_label:
  "map fst (sort_by_label tab) =
     map Some (map fst (sort_key fst (List.map_filter (\<lambda>(l, v). map_option (\<lambda>a. (a, v)) l) tab)))
     @ map fst (filter (\<lambda>(l, v). l = None) tab)"
  by (simp add: sort_by_label_def case_prod_beta comp_def)

lemma missing_rows_labels:
  "map fst (filter (\<lambda>(l, v). l = None) tab) = replicate (length (filter (\<lambda>(l, v). l = None) tab)) None"
  by (induction tab) auto

lemma distinct_replicate_le1: "distinct (replicate n x) \<Longrightarrow> n \<le> 1"
  by (cases n) (auto simp: not_less_eq_eq)

lemma distinct_map_Some: "distinct (map Some ks) \<Longrightarrow> distinct ks"
  by (simp add: distinct_map)

lemma sort_by_label_shape:
  assumes "distinct (map fst tab)"
  shows "\<exists>ks n. map fst (sort_by_label tab) = map Some ks @ replicate n None \<and> sorted_wrt (<) ks \<and> n \<le> 1"
proof -
  let ?P = "List.map_filter (\<lambda>(l, v). map_option (\<lambda>a. (a, v)) l) tab"
  let ?ks = "map fst (sort_key fst ?P)"
  let ?n = "length (filter (\<lambda>(l, v). l = None) tab)"
  have shape: "map fst (sort_by_label tab) = map Some ?ks @ replicate ?n None"
    by (simp only: labels_sort_by_label missing_rows_labels [symmetric])
  have "mset (map fst (sort_by_label tab)) = mset (map fst tab)"
    using mset_sort_by_label [of tab] by (metis mset_map)
  with assms have d: "distinct (map fst (sort_by_label tab))"
    by (metis mset_eq_imp_distinct_iff)
  from d have d1: "distinct (map Some ?ks)" and d2: "distinct (replicate ?n (None :: 'a option))"
    unfolding shape by simp_all
  from d1 have dk: "distinct ?ks" by (rule distinct_map_Some)
  from d2 have n: "?n \<le> 1" by (rule distinct_replicate_le1)
  have "sorted ?ks" by (rule sorted_sort_key)
  with dk have "sorted_wrt (<) ?ks" by (simp add: strict_sorted_iff)
  with shape n show ?thesis by blast
qed

lemma sorted_wrt_num_labels:
  assumes "sorted_wrt (<) ks" "n \<le> 1"
  shows "sorted_wrt cell_less (map num_cell (map Some ks @ replicate n None))"
proof -
  have a: "sorted_wrt cell_less (map num_cell (map Some ks))"
    using assms(1) by (simp add: sorted_wrt_map num_cell_def)
  have b: "sorted_wrt cell_less (map num_cell (replicate n None))"
    using assms(2) by (cases n) simp_all
  show ?thesis
    unfolding map_append sorted_wrt_append using a b by (auto simp: num_cell_def)
qed

lemma sorted_wrt_str_labels:
  assumes "sorted_wrt (<) ks" "n \<le> 1"
  shows "sorted_wrt cell_less (map str_cell (map Some ks @ replicate n None))"
proof -
  have a: "sorted_wrt cell_less (map str_cell (map Some ks))"
    using assms(1) by (simp add: sorted_wrt_map str_cell_def)
  have b: "sorted_wrt cell_less (map str_cell (replicate n None))"
    using assms(2) by (cases n) simp_all
  show ?thesis
    unfolding map_append sorted_wrt_append using a b by (auto simp: str_cell_def)
qed

lemma distinct_labels_tab:
  "distinct (map fst (map (\<lambda>(v, c). (v, g c)) (value_counts False xs)))"
proof -
  have "mset (map fst (value_counts False xs)) = mset (unique xs)"
    using mset_value_counts_all [of xs]
    by (metis (no_types, lifting) mset_map image_mset.compositionality comp_def fst_conv
          multiset.map_cong0 mset_map map_ident multiset.map_ident)
  then have d: "distinct (map fst (value_counts False xs))"
    using distinct_unique [of xs] by (metis mset_eq_imp_distinct_iff)
  have e: "map fst (map (\<lambda>(v, c). (v, g c)) (value_counts False xs)) = map fst (value_counts False xs)"
    by (simp add: case_prod_beta comp_def)
  show ?thesis unfolding e by (rule d)
qed

lemma exact_rows_index_shape:
  assumes "lower sort_by = ''index''"
  shows "\<exists>ks n. map fst (exact_rows xs sort_by normalise) = map Some ks @ replicate n None
            \<and> sorted_wrt (<) ks \<and> n \<le> 1"
proof -
  let ?t = "sum_list (map snd (value_counts False xs))"
  let ?tab = "map (\<lambda>(v, c). (v, if normalise then of_nat c / of_nat ?t else (of_nat c :: rat)))
                (value_counts False xs)"
  have "exact_rows xs sort_by normalise = sort_by_label ?tab"
    using assms by (simp add: exact_rows_def Let_def)
  moreover have "distinct (map fst ?tab)" by (rule distinct_labels_tab)
  ultimately show ?thesis using sort_by_label_shape [of ?tab] by simp
qed

lemma exact_cells_sorted_by_label:
  assumes "lower sort_by = ''index''"
  shows "sorted_wrt cell_less (map fst (exact_cells vals sort_by normalise))"
proof (cases vals)
  case (NumCol xs)
  from exact_rows_index_shape [OF assms, of xs normalise] obtain ks n where
    "map fst (exact_rows xs sort_by normalise) = map Some ks @ replicate n None"
    "sorted_wrt (<) ks" "n \<le> 1" by blast
  with NumCol show ?thesis
    by (simp only: labels_exact_cells sorted_wrt_num_labels)
next
  case (ObjCol ss)
  from exact_rows_index_shape [OF assms, of ss normalise] obtain ks n where
    "map fst (exact_rows ss sort_by normalise) = map Some ks @ replicate n None"
    "sorted_wrt (<) ks" "n \<le> 1" by blast
  with ObjCol show ?thesis
    by (simp only: labels_exact_cells sorted_wrt_str_labels)
qed

lemma measures_desc: "sorted_wrt (\<lambda>a b. b \<le> a) (map snd (sort_by_measure_desc tab))"
proof -
  have "sorted (map (\<lambda>(l, v). - v) (sort_key (\<lambda>(l, v). - v) tab))"
    by (rule sorted_sort_key)
  then have "sorted_wrt (\<lambda>a b. - snd a \<le> - snd b) (sort_key (\<lambda>(l, v). - v) tab)"
    by (simp add: sorted_wrt_map case_prod_beta)
  then show ?thesis
    by (simp add: sort_by_measure_desc_def sorted_wrt_map)
qed

lemma exact_rows_measures_desc:
  assumes "lower sort_by \<noteq> ''index''"
  shows "sorted_wrt (\<lambda>a b. b \<le> a) (map snd (exact_rows xs sort_by normalise))"
  using assms by (simp add: exact_rows_def Let_def measures_desc)

lemma exact_cells_sorted_by_measure:
  assumes "lower sort_by \<noteq> ''index''"
  shows "sorted_wrt (\<lambda>a b. fl_le b a) (map snd (exact_cells vals sort_by normalise))"
proof -
  have m: "sorted_wrt (\<lambda>a b. b \<le> a) vs \<Longrightarrow> sorted_wrt (\<lambda>a b. fl_le b a) (map Some vs)" for vs :: "rat list"
    by (simp add: sorted_wrt_map)
  show ?thesis
  proof (cases vals)
    case (NumCol xs)
    have e: "map snd (exact_cells (NumCol xs) sort_by normalise) = map Some (map snd (exact_rows xs sort_by normalise))"
      by (simp add: case_prod_beta comp_def)
    show ?thesis unfolding NumCol e by (rule m [OF exact_rows_measures_desc [OF assms]])
  next
    case (ObjCol ss)
    have e: "map snd (exact_cells (ObjCol ss) sort_by normalise) = map Some (map snd (exact_rows ss sort_by normalise))"
      by (simp add: case_prod_beta comp_def)
    show ?thesis unfolding ObjCol e by (rule m [OF exact_rows_measures_desc [OF assms]])
  qed
qed

lemma mset_exact_cells_sort_by:
  "mset (exact_cells vals sort_by normalise) = mset (exact_cells vals sort_by' normalise)"
proof (cases vals)
  case (NumCol xs)
  have "mset (exact_rows xs sort_by normalise) = mset (exact_rows xs sort_by' normalise)"
    by (simp only: mset_exact_rows)
  then have "image_mset (\<lambda>(l, v). (num_cell l, Some v)) (mset (exact_rows xs sort_by normalise))
      = image_mset (\<lambda>(l, v). (num_cell l, Some v)) (mset (exact_rows xs sort_by' normalise))"
    by simp
  with NumCol show ?thesis by simp
next
  case (ObjCol ss)
  have "mset (exact_rows ss sort_by normalise) = mset (exact_rows ss sort_by' normalise)"
    by (simp only: mset_exact_rows)
  then have "image_mset (\<lambda>(l, v). (str_cell l, Some v)) (mset (exact_rows ss sort_by normalise))
      = image_mset (\<lambda>(l, v). (str_cell l, Some v)) (mset (exact_rows ss sort_by' normalise))"
    by simp
  with ObjCol show ?thesis by simp
qed

subsection \<open>Bins: labels and edges\<close>

lemma keys_dict_set: "set (map fst (dict_set d k v)) = insert k (set (map fst d))"
proof (induction d)
  case Nil
  show ?case by simp
next
  case (Cons a d)
  obtain k' v' where a: "a = (k', v')" by (cases a)
  show ?case
  proof (cases "k' = k")
    case True
    with a show ?thesis by simp
  next
    case False
    with a Cons.IH show ?thesis by (simp add: insert_commute)
  qed
qed

lemma keys_fold_dict_set:
  "set (map fst (fold (\<lambda>idx d. dict_set d (f idx) (g idx)) idxs d0)) = f ` set idxs \<union> set (map fst d0)"
proof (induction idxs arbitrary: d0)
  case Nil
  show ?case by simp
next
  case (Cons i idxs)
  show ?case
    by (simp only: fold_simps Cons.IH keys_dict_set) auto
qed

lemma keys_labelled_bins:
  "set (map fst (labelled_bins freqs edges)) = bin_label edges ` {0..<length freqs}"
  unfolding labelled_bins_def by (simp only: keys_fold_dict_set) simp

lemma length_freqs: "length (fst (histogram data)) = 10"
  by (simp add: histogram_def nbins_def split: prod.splits)

lemma histogram_edges:
  "outer_edges data = (lo, hi) \<Longrightarrow> i \<le> 10 \<Longrightarrow> snd (histogram data) ! i = lo + of_nat i * ((hi - lo) / 10)"
proof -
  assume a: "outer_edges data = (lo, hi)" and i: "i \<le> 10"
  have "snd (histogram data) = map (\<lambda>i. lo + of_nat i * ((hi - lo) / of_nat 10)) [0..<Suc 10]"
    using a by (simp only: histogram_def linspace_def nbins_def prod.case snd_conv)
  moreover have "i < length [0..<Suc 10]" using i by simp
  ultimately show ?thesis by (simp only: nth_map nth_upt) simp
qed

lemma digits_of_chars: "set (digits_of n) \<subseteq> set ''0123456789''"
proof (induction n rule: digits_of.induct)
  case (1 n)
  have d: "''0123456789'' ! k \<in> set ''0123456789''" if "k < 10" for k
    using that by (intro nth_mem) simp
  show ?case
  proof (cases "n < 10")
    case True
    then have "digits_of n = [''0123456789'' ! n]" by (subst digits_of.simps) simp
    with d [OF True] show ?thesis by simp
  next
    case False
    have m: "n mod 10 < 10" by simp
    from False have "digits_of n = digits_of (n div 10) @ [''0123456789'' ! (n mod 10)]"
      by (subst digits_of.simps) simp
    with d [OF m] 1 [OF False] show ?thesis by simp
  qed
qed

lemma group_thousands_chars: "set (group_thousands ds) \<subseteq> insert (CHR '','') (set ds)"
proof (induction ds rule: group_thousands.induct)
  case (1 ds)
  show ?case
  proof (cases "length ds \<le> 3")
    case True
    then have "group_thousands ds = ds" by (subst group_thousands.simps) simp
    then show ?thesis by auto
  next
    case False
    have t: "set (take (length ds - 3) ds) \<subseteq> set ds" by (rule set_take_subset)
    have dr: "set (drop (length ds - 3) ds) \<subseteq> set ds" by (rule set_drop_subset)
    from False have e: "group_thousands ds =
        group_thousands (take (length ds - 3) ds) @ '','' @ drop (length ds - 3) ds"
      by (subst group_thousands.simps) simp
    from 1 [OF False] t dr show ?thesis unfolding e by auto
  qed
qed

lemma format_f0_shape:
  "format_f0 x = (if x < 0 then CHR ''-'' else CHR '' '') # group_thousands (digits_of (round_half_even \<bar>x\<bar>))
   \<and> set (group_thousands (digits_of (round_half_even \<bar>x\<bar>))) \<subseteq> set ''0123456789,''"
proof -
  have "set (group_thousands (digits_of (round_half_even \<bar>x\<bar>)))
          \<subseteq> insert (CHR '','') (set (digits_of (round_half_even \<bar>x\<bar>)))"
    by (rule group_thousands_chars)
  also have "\<dots> \<subseteq> insert (CHR '','') (set ''0123456789'')"
    using digits_of_chars [of "round_half_even \<bar>x\<bar>"] by blast
  also have "\<dots> = set ''0123456789,''" by auto
  finally show ?thesis by (simp add: format_f0_def)
qed

lemma bin_rows_labels:
  "map fst (bin_rows nulls data) = NaN # map Str (map fst (labelled_bins (fst (histogram data)) (snd (histogram data))))"
  by (simp add: bin_rows_def case_prod_beta comp_def)

lemma labels_of_rows:
  "map fst (normalize_rows rs) = map fst rs" "map fst (count_rows rs) = map fst rs"
  by (simp_all add: normalize_rows_def count_rows_def Let_def case_prod_beta comp_def)


subsection \<open>Bins: the counts when no two bins share a label\<close>

lemma fold_dict_set_fresh:
  "distinct (map f idxs) \<Longrightarrow> f ` set idxs \<inter> set (map fst d0) = {} \<Longrightarrow>
     fold (\<lambda>idx d. dict_set d (f idx) (g idx)) idxs d0 = d0 @ map (\<lambda>idx. (f idx, g idx)) idxs"
proof (induction idxs arbitrary: d0)
  case Nil
  show ?case by simp
next
  case (Cons i idxs)
  have fresh: "dict_set d0 (f i) (g i) = d0 @ [(f i, g i)]" if "f i \<notin> set (map fst d0)" for d0
    using that by (induction d0) auto
  from Cons.prems have a: "f i \<notin> set (map fst d0)" by auto
  from Cons.prems have b: "distinct (map f idxs)" by simp
  from Cons.prems have c: "f ` set idxs \<inter> set (map fst (d0 @ [(f i, g i)])) = {}" by auto
  show ?case
    by (simp only: fold_simps fresh [OF a] Cons.IH [OF b c]) simp
qed

lemma labelled_bins_distinct:
  assumes "distinct (map (bin_label edges) [0..<length freqs])"
  shows "map snd (labelled_bins freqs edges) = freqs"
proof -
  have "labelled_bins freqs edges = [] @ map (\<lambda>idx. (bin_label edges idx, freqs ! idx)) [0..<length freqs]"
    unfolding labelled_bins_def by (rule fold_dict_set_fresh) (use assms in simp_all)
  then have "map snd (labelled_bins freqs edges) = map (\<lambda>idx. freqs ! idx) [0..<length freqs]"
    by (simp add: comp_def)
  then show ?thesis by (simp add: map_nth)
qed

lemma sum_indicator_upt: "k < n \<Longrightarrow> sum_list (map (\<lambda>i. if k = i then 1 else 0) [0..<n]) = (1::nat)"
  by (induction n) (auto simp: less_Suc_eq)

lemma sum_bin_counts:
  "\<forall>x \<in> set xs. f x < n \<Longrightarrow>
     sum_list (map (\<lambda>i. length (filter (\<lambda>x. f x = i) xs)) [0..<n]) = length xs"
proof (induction xs)
  case Nil
  show ?case by simp
next
  case (Cons x xs)
  have "sum_list (map (\<lambda>i. length (filter (\<lambda>x. f x = i) (x # xs))) [0..<n])
      = sum_list (map (\<lambda>i. (if f x = i then 1 else 0) + length (filter (\<lambda>x. f x = i) xs)) [0..<n])"
    by (intro arg_cong [where f = sum_list] map_cong) auto
  also have "\<dots> = sum_list (map (\<lambda>i. if f x = i then 1 else 0) [0..<n])
      + sum_list (map (\<lambda>i. length (filter (\<lambda>x. f x = i) xs)) [0..<n])"
    by (rule sum_list_addf)
  also have "\<dots> = 1 + length xs"
    using Cons by (simp add: sum_indicator_upt)
  finally show ?case by simp
qed

lemma fold_min_le: "fold min xs (x::rat) \<le> x \<and> (\<forall>y \<in> set xs. fold min xs x \<le> y)"
proof (induction xs arbitrary: x)
  case Nil
  show ?case by simp
next
  case (Cons a xs)
  from Cons [where x = "min a x"] show ?case by (auto simp: min_le_iff_disj)
qed

lemma fold_max_ge: "x \<le> fold max xs (x::rat) \<and> (\<forall>y \<in> set xs. y \<le> fold max xs x)"
proof (induction xs arbitrary: x)
  case Nil
  show ?case by simp
next
  case (Cons a xs)
  from Cons [where x = "max a x"] show ?case by (auto simp: le_max_iff_disj)
qed

lemma outer_edges_range:
  assumes "outer_edges data = (lo, hi)"
  shows "lo < hi \<and> (\<forall>x \<in> set data. lo \<le> x \<and> x \<le> hi)"
proof (cases data)
  case Nil
  with assms show ?thesis by simp
next
  case (Cons x xs)
  let ?m = "fold min xs x" and ?M = "fold max xs x"
  have m: "?m \<le> x" "\<forall>y \<in> set xs. ?m \<le> y" using fold_min_le [where xs = xs and x = x] by auto
  have M: "x \<le> ?M" "\<forall>y \<in> set xs. y \<le> ?M" using fold_max_ge [where xs = xs and x = x] by auto
  show ?thesis
  proof (cases "?m = ?M")
    case True
    with assms Cons have "lo = ?m - 1 / 2" "hi = ?M + 1 / 2" by (simp_all add: Let_def)
    with True m M Cons show ?thesis by (auto intro: order_trans less_le_trans)
  next
    case False
    with assms Cons have e: "lo = ?m" "hi = ?M" by (simp_all add: Let_def)
    from m(1) M(1) False have "?m < ?M" by simp
    with e m M Cons show ?thesis by auto
  qed
qed

lemma bin_index_less:
  assumes "lo < hi" "lo \<le> x" "x \<le> hi"
  shows "bin_index lo hi 10 x < 10"
proof -
  define r where "r = (x - lo) / (hi - lo) * of_nat 10"
  have "(x - lo) / (hi - lo) \<le> 1" using assms by (simp add: divide_le_eq_1)
  then have "(x - lo) / (hi - lo) * of_nat 10 \<le> 1 * of_nat 10" by (rule mult_right_mono) simp
  then have "r \<le> 10" by (simp add: r_def)
  then have "r < of_int 10 + 1" by simp
  then have "\<lfloor>r\<rfloor> \<le> 10" by (simp only: floor_le_iff)
  then have "nat \<lfloor>r\<rfloor> \<le> nat 10" by (rule nat_mono)
  then have "nat \<lfloor>r\<rfloor> \<le> 10" by simp
  then show ?thesis unfolding bin_index_def Let_def r_def [symmetric] by auto
qed

lemma histogram_counts_all: "sum_list (fst (histogram data)) = length data"
proof -
  obtain lo hi where o: "outer_edges data = (lo, hi)" by (cases "outer_edges data")
  from outer_edges_range [OF o] have "\<forall>x \<in> set data. bin_index lo hi 10 x < 10"
    by (auto intro: bin_index_less)
  from sum_bin_counts [OF this] o show ?thesis
    by (simp add: histogram_def nbins_def)
qed

lemma isna_dropna: "isna_sum xs + length (dropna xs) = length xs"
  by (induction xs) (auto simp: isna_sum_def dropna_def List.map_filter_simps split: option.splits)

lemma bins_add_up_when_labels_distinct:
  assumes "distinct (map (bin_label (snd (histogram (dropna xs)))) [0..<10])"
  shows "sum_list (map snd (bin_rows (isna_sum xs) (dropna xs))) = length xs"
proof -
  have l: "length (fst (histogram (dropna xs))) = 10"
    by (simp add: histogram_def nbins_def split: prod.splits)
  have "map snd (bin_rows (isna_sum xs) (dropna xs))
      = isna_sum xs # map snd (labelled_bins (fst (histogram (dropna xs))) (snd (histogram (dropna xs))))"
    by (simp add: bin_rows_def case_prod_beta comp_def)
  also have "\<dots> = isna_sum xs # fst (histogram (dropna xs))"
    using assms by (simp only: labelled_bins_distinct l)
  finally show ?thesis
    by (simp only: sum_list.Cons histogram_counts_all isna_dropna)
qed

lemma generate_frequency_bins_when_labels_distinct:
  assumes "distinct (map (bin_label (snd (histogram (dropna xs)))) [0..<10])"
  shows "\<exists>rs. sum_list (map snd rs) = length xs
            \<and> generate_frequency_bins fieldname (NumCol xs) False =
                Inr \<lparr>label_var = ''bins|'' @ fieldname, value_var = ''count|'' @ fieldname,
                     rows = map (\<lambda>(l, c). (l, Some (of_nat c))) rs\<rparr>
            \<and> generate_frequency_bins fieldname (NumCol xs) True =
                Inr \<lparr>label_var = ''bins|'' @ fieldname, value_var = ''pct|'' @ fieldname,
                     rows = map (\<lambda>(l, c). (l, true_div c (length xs))) rs\<rparr>"
proof -
  let ?rs = "bin_rows (isna_sum xs) (dropna xs)"
  have s: "sum_list (map snd ?rs) = length xs"
    by (rule bins_add_up_when_labels_distinct [OF assms])
  have "generate_frequency_bins fieldname (NumCol xs) False =
                Inr \<lparr>label_var = ''bins|'' @ fieldname, value_var = ''count|'' @ fieldname,
                     rows = map (\<lambda>(l, c). (l, Some (of_nat c))) ?rs\<rparr>"
    by (simp add: generate_frequency_bins_def count_rows_def)
  moreover have "generate_frequency_bins fieldname (NumCol xs) True =
                Inr \<lparr>label_var = ''bins|'' @ fieldname, value_var = ''pct|'' @ fieldname,
                     rows = map (\<lambda>(l, c). (l, true_div c (length xs))) ?rs\<rparr>"
    by (simp add: generate_frequency_bins_def normalize_rows_def s)
  ultimately show ?thesis using s by blast
qed


section \<open>The classifier and exceptions\<close>

text \<open>
  C2. The claim: classification never raises; a failure inside any check is caught and
  the next check runs, so \<^verbatim>\<open>_detect_col_dtypes\<close> returns a tag for every column.

  The code misses it: the call of \<^verbatim>\<open>_currency_cleaner\<close> (line 73) stands outside
  the \<^verbatim>\<open>try\<close> of the Currency check. A numeric column that is neither tagged integer nor
  float reaches it, and the \<^verbatim>\<open>.str\<close> accessor raises AttributeError out of the
  classifier. Here a column of temperatures -1.5, -0.5, 0.5: the truncated values sum to
  -1, the values to -1.5, which is not positive.
\<close>

theorem C2_classifier_raises:
  "detect_col_dtypes digit_parsers
     [(''temp'', NumCol [Some (- 3 / 2), Some (- 1 / 2), Some (1 / 2)])] = Inl AttributeError"
  by code_simp








section \<open>The summarizer: exact counts or bins\<close>







section \<open>Exact counts: the rows and their order\<close>

text \<open>
  C4. The claim: the table of exact counts has a row for missing values besides one row
  per distinct present value, also when nothing is missing, then with count 0; the column
  1, 2, 3, 4 gives (1,1), (2,1), (3,1), (4,1) and (null, 0).

  The code calls \<^verbatim>\<open>value_counts(dropna=False)\<close>, which counts NaN as one more value when
  it occurs and adds no row when it does not: the column 1, 2, 3, 4 gives four rows.
\<close>

theorem C4_counterexample:
  "count_distinct_excel digit_parsers [(''n'', NumCol [Some 1, Some 2, Some 3, Some 4])] ''index'' False =
     Inr ([(''n'', NumCol [Some 1, Some 2, Some 3, Some 4])],
          [(''n'', \<lparr>label_var = ''n'', value_var = ''count|n'',
                    rows = [(Num 1, Some 1), (Num 2, Some 1), (Num 3, Some 1), (Num 4, Some 1)]\<rparr>)])"
  by code_simp

text \<open>
  C4, as the code has it. The labels of the table of exact counts are the distinct cells
  of the column, one row each; the row of the missing label is there exactly when the
  column has a missing cell; with \<^verbatim>\<open>normalize=False\<close> the measure of a row is the number
  of cells equal to its label (for the missing row the number of missing cells, which is
  then positive).
\<close>

theorem C4_exact_count_rows:
  "set (map fst (rows (exact_table col values sort_by normalise))) = set (cells values)
   \<and> distinct (map fst (rows (exact_table col values sort_by normalise)))
   \<and> (\<forall>l v. (l, v) \<in> set (rows (exact_table col values sort_by False)) \<longrightarrow>
          v = Some (of_nat (count_list (cells values) l)))
   \<and> (NaN \<in> set (map fst (rows (exact_table col values sort_by normalise)))) = (0 < count_nulls values)"
proof -
  have r: "rows (exact_table col values sort_by nz) = exact_cells values sort_by nz" for nz
    by (simp add: exact_table_def Let_def)
  have 1: "set (map fst (rows (exact_table col values sort_by normalise))) = set (cells values)"
    unfolding r by (rule set_labels_exact_cells)
  have 2: "distinct (map fst (rows (exact_table col values sort_by normalise)))"
    unfolding r by (rule distinct_labels_exact_cells)
  have 3: "\<forall>l v. (l, v) \<in> set (rows (exact_table col values sort_by False)) \<longrightarrow>
          v = Some (of_nat (count_list (cells values) l))"
    unfolding r by (blast dest: counts_exact_cells)
  have 4: "(NaN \<in> set (map fst (rows (exact_table col values sort_by normalise)))) = (0 < count_nulls values)"
    unfolding 1 by (rule NaN_in_cells)
  from 1 2 3 4 show ?thesis by blast
qed

theorem C4_exact_count_rows_witness:
  "(NaN, Some 1) \<in> set (rows (exact_table ''f'' (ObjCol [Some ''pear'', None, Some ''apple'', Some ''pear'']) ''index'' False))
   \<and> Some (1::rat) = Some (of_nat (count_list (cells (ObjCol [Some ''pear'', None, Some ''apple'', Some ''pear''])) NaN))
   \<and> NaN \<in> set (map fst (rows (exact_table ''f'' (ObjCol [Some ''pear'', None, Some ''apple'', Some ''pear'']) ''index'' False)))
   \<and> 0 < count_nulls (ObjCol [Some ''pear'', None, Some ''apple'', Some ''pear''])
   \<and> rows (exact_table ''f'' (ObjCol [Some ''pear'', None, Some ''apple'', Some ''pear'']) ''index'' False) =
       [(Str ''apple'', Some 1), (Str ''pear'', Some 2), (NaN, Some 1)]"
proof -
  have r: "rows (exact_table ''f'' (ObjCol [Some ''pear'', None, Some ''apple'', Some ''pear'']) ''index'' False) =
       [(Str ''apple'', Some 1), (Str ''pear'', Some 2), (NaN, Some 1)]"
    by code_simp
  then have m: "(NaN, Some 1) \<in> set (rows (exact_table ''f'' (ObjCol [Some ''pear'', None, Some ''apple'', Some ''pear'']) ''index'' False))"
    by simp
  from m r C4_exact_count_rows [of "''f''" "ObjCol [Some ''pear'', None, Some ''apple'', Some ''pear'']" "''index''" False]
  show ?thesis by auto
qed

text \<open>
  C10. \<^verbatim>\<open>sort_by\<close> is not validated: for every string the exact-count branch returns
  its table. The rows are sorted by label, ascending with the missing label last, when
  the lower-cased \<^verbatim>\<open>sort_by\<close> is \<^verbatim>\<open>"index"\<close>, and by measure, descending, for every
  other string; the two orders hold the same rows.
\<close>

theorem C10_sort_by:
  "(lower sort_by = ''index'' \<longrightarrow>
      sorted_wrt cell_less (map fst (rows (exact_table col values sort_by normalise))))
   \<and> (lower sort_by \<noteq> ''index'' \<longrightarrow>
      sorted_wrt (\<lambda>a b. fl_le b a) (map snd (rows (exact_table col values sort_by normalise))))
   \<and> mset (rows (exact_table col values sort_by normalise))
       = mset (rows (exact_table col values sort_by' normalise))
   \<and> (clean_if_currency P ty values0 = Inr values \<and> (ty = Some T_string \<or> nunique values < 10) \<longrightarrow>
        summarize_column P col ty values0 sort_by normalise
          = Inr (values, exact_table col values sort_by normalise))"
proof -
  have r: "rows (exact_table col values sb normalise) = exact_cells values sb normalise" for sb
    by (simp add: exact_table_def Let_def)
  have 1: "lower sort_by = ''index'' \<longrightarrow>
      sorted_wrt cell_less (map fst (rows (exact_table col values sort_by normalise)))"
    unfolding r by (blast intro: exact_cells_sorted_by_label)
  have 2: "lower sort_by \<noteq> ''index'' \<longrightarrow>
      sorted_wrt (\<lambda>a b. fl_le b a) (map snd (rows (exact_table col values sort_by normalise)))"
    unfolding r by (blast intro: exact_cells_sorted_by_measure)
  have 3: "mset (rows (exact_table col values sort_by normalise))
       = mset (rows (exact_table col values sort_by' normalise))"
    unfolding r by (rule mset_exact_cells_sort_by)
  have 4: "clean_if_currency P ty values0 = Inr values \<and> (ty = Some T_string \<or> nunique values < 10) \<longrightarrow>
        summarize_column P col ty values0 sort_by normalise
          = Inr (values, exact_table col values sort_by normalise)"
    by (auto simp: summarize_column_def)
  from 1 2 3 4 show ?thesis by blast
qed

theorem C10_sort_by_witness:
  "lower ''INDEX'' = ''index'' \<and> lower ''Index'' = ''index''
   \<and> sorted_wrt cell_less (map fst (rows (exact_table ''f'' (ObjCol [Some ''pear'', None, Some ''apple'', Some ''pear'']) ''INDEX'' False)))
   \<and> rows (exact_table ''f'' (ObjCol [Some ''pear'', None, Some ''apple'', Some ''pear'']) ''INDEX'' False) =
       [(Str ''apple'', Some 1), (Str ''pear'', Some 2), (NaN, Some 1)]
   \<and> lower ''no such order'' \<noteq> ''index''
   \<and> sorted_wrt (\<lambda>a b. fl_le b a) (map snd (rows (exact_table ''f'' (ObjCol [Some ''pear'', None, Some ''apple'', Some ''pear'']) ''no such order'' False)))
   \<and> rows (exact_table ''f'' (ObjCol [Some ''pear'', None, Some ''apple'', Some ''pear'']) ''no such order'' False) =
       [(Str ''pear'', Some 2), (NaN, Some 1), (Str ''apple'', Some 1)]
   \<and> summarize_column digit_parsers ''f'' (Some T_string) (ObjCol [Some ''pear'', None, Some ''apple'', Some ''pear'']) ''no such order'' False =
       Inr ((ObjCol [Some ''pear'', None, Some ''apple'', Some ''pear'']), exact_table ''f'' (ObjCol [Some ''pear'', None, Some ''apple'', Some ''pear'']) ''no such order'' False)"
proof -
  have a: "lower ''INDEX'' = ''index''" "lower ''Index'' = ''index''" "lower ''no such order'' \<noteq> ''index''"
    by code_simp+
  have b: "rows (exact_table ''f'' (ObjCol [Some ''pear'', None, Some ''apple'', Some ''pear'']) ''INDEX'' False) =
       [(Str ''apple'', Some 1), (Str ''pear'', Some 2), (NaN, Some 1)]"
    by code_simp
  have c: "rows (exact_table ''f'' (ObjCol [Some ''pear'', None, Some ''apple'', Some ''pear'']) ''no such order'' False) =
       [(Str ''pear'', Some 2), (NaN, Some 1), (Str ''apple'', Some 1)]"
    by code_simp
  have d: "clean_if_currency digit_parsers (Some T_string) (ObjCol [Some ''pear'', None, Some ''apple'', Some ''pear'']) = Inr (ObjCol [Some ''pear'', None, Some ''apple'', Some ''pear''])"
    by (simp add: clean_if_currency_def)
  from a d
    C10_sort_by [of "''INDEX''" "''f''" "(ObjCol [Some ''pear'', None, Some ''apple'', Some ''pear''])" False "''INDEX''" digit_parsers "Some T_string" "(ObjCol [Some ''pear'', None, Some ''apple'', Some ''pear''])"]
    C10_sort_by [of "''no such order''" "''f''" "(ObjCol [Some ''pear'', None, Some ''apple'', Some ''pear''])" False "''INDEX''" digit_parsers "Some T_string" "(ObjCol [Some ''pear'', None, Some ''apple'', Some ''pear''])"]
  have "sorted_wrt cell_less (map fst (rows (exact_table ''f'' (ObjCol [Some ''pear'', None, Some ''apple'', Some ''pear'']) ''INDEX'' False)))"
    and "sorted_wrt (\<lambda>a b. fl_le b a) (map snd (rows (exact_table ''f'' (ObjCol [Some ''pear'', None, Some ''apple'', Some ''pear'']) ''no such order'' False)))"
    and "summarize_column digit_parsers ''f'' (Some T_string) (ObjCol [Some ''pear'', None, Some ''apple'', Some ''pear'']) ''no such order'' False =
       Inr ((ObjCol [Some ''pear'', None, Some ''apple'', Some ''pear'']), exact_table ''f'' (ObjCol [Some ''pear'', None, Some ''apple'', Some ''pear'']) ''no such order'' False)"
    by blast+
  with a b c show ?thesis by blast
qed



section \<open>Frequency bins: the counts\<close>

text \<open>
  C5. The claim: for a binned column with \<^verbatim>\<open>normalize=False\<close>, the ten bin counts and
  the count of missing values add up to the number of rows.

  The code misses it where two bins get the same label: the bins are stored in a dict
  keyed by the label, so a later bin overwrites an earlier one. For the ten proportions
  0.0 to 0.9 the edges 0, 0.09, ..., 0.9 round to 0 or 1, the ten bins (one value each)
  collapse to three rows, and the counts add up to 3, not 10. Where the ten labels are
  distinct the counts do add up (\<open>bins_add_up_when_labels_distinct\<close>).
\<close>

theorem C5_bins_lost_on_equal_labels:
  "count_distinct_excel digit_parsers [(''p'', proportions)] ''index'' False =
     Inr ([(''p'', proportions)],
          [(''p'', \<lparr>label_var = ''bins|p'', value_var = ''count|p'',
                    rows = [(NaN, Some 0), (Str '' 0 to < 0'', Some 1),
                            (Str '' 0 to < 1'', Some 1), (Str '' 1 to < 1'', Some 1)]\<rparr>)])"
  unfolding proportions_def by code_simp

text \<open>
  C8. The claim: the counts of \<^verbatim>\<open>normalize=False\<close> divided by the number of rows are
  the table of \<^verbatim>\<open>normalize=True\<close>.

  The code divides by the sum of the rows of the table, which is the number of rows of
  the column only when no bin was lost to an equal label (the defect of C5). For the ten
  proportions the normalised rows are 1/3 each, the counts divided by the 10 rows are
  1/10 each. Where the ten labels are distinct the two tables agree
  (\<open>generate_frequency_bins_when_labels_distinct\<close>).
\<close>

theorem C8_normalised_by_sum_of_rows:
  "count_distinct_excel digit_parsers [(''p'', proportions)] ''index'' True =
     Inr ([(''p'', proportions)],
          [(''p'', \<lparr>label_var = ''bins|p'', value_var = ''pct|p'',
                    rows = [(NaN, Some 0), (Str '' 0 to < 0'', Some (1 / 3)),
                            (Str '' 0 to < 1'', Some (1 / 3)), (Str '' 1 to < 1'', Some (1 / 3))]\<rparr>)])"
  unfolding proportions_def by code_simp


section \<open>Frequency bins: the labels\<close>

text \<open>
  C7. The claim: a bin label is \<^verbatim>\<open>"{lower:,.0f} to <{upper:,.0f}"\<close> and nothing else, so
  the bins of a column over 0 to 100 are labelled \<^verbatim>\<open>"0 to <10"\<close>, ..., \<^verbatim>\<open>"90 to <100"\<close>.

  The format specification of the code is \<^verbatim>\<open>" ,.0f"\<close>, with the sign option "space":
  the labels of the column 0, 10, ..., 100 are \<^verbatim>\<open>" 0 to < 10"\<close>, ...,
  \<^verbatim>\<open>" 90 to < 100"\<close>.
\<close>

theorem C7_counterexample:
  "count_distinct_excel digit_parsers [(''x'', decades)] ''index'' False =
     Inr ([(''x'', decades)],
          [(''x'', \<lparr>label_var = ''bins|x'', value_var = ''count|x'',
             rows = [(NaN, Some 0), (Str '' 0 to < 10'', Some 1), (Str '' 10 to < 20'', Some 1),
                     (Str '' 20 to < 30'', Some 1), (Str '' 30 to < 40'', Some 1),
                     (Str '' 40 to < 50'', Some 1), (Str '' 50 to < 60'', Some 1),
                     (Str '' 60 to < 70'', Some 1), (Str '' 70 to < 80'', Some 1),
                     (Str '' 80 to < 90'', Some 1), (Str '' 90 to < 100'', Some 2)]\<rparr>)])
   \<and> bin_label (linspace 0 100 10) 0 \<noteq> ''0 to <10''
   \<and> bin_label (linspace 0 100 10) 9 \<noteq> ''90 to <100''"
  unfolding decades_def by code_simp

text \<open>
  C7, as the code has it. The first row of a binned table is the missing row, the labels
  of the other rows are the labels of the ten bins; the label of a bin is the formatted
  lower edge, \<^verbatim>\<open>" to <"\<close> and the formatted upper edge; a formatted edge is a space (the
  edge is not negative) or a minus sign (it is) followed by digits and commas only: the
  edge rounded to no decimal place, its digits grouped by three; the edges are evenly
  spaced over the range.
\<close>

theorem C7_bin_labels:
  "(generate_frequency_bins fieldname col normalise = Inr t \<and> histogram_data col = Inr data \<longrightarrow>
      hd (map fst (rows t)) = NaN
      \<and> set (tl (map fst (rows t))) = (\<lambda>idx. Str (bin_label (snd (histogram data)) idx)) ` {0..<10})
   \<and> bin_label edges idx = format_f0 (edges ! idx) @ '' to <'' @ format_f0 (edges ! Suc idx)
   \<and> format_f0 x = (if x < 0 then CHR ''-'' else CHR '' '') # group_thousands (digits_of (round_half_even \<bar>x\<bar>))
   \<and> set (group_thousands (digits_of (round_half_even \<bar>x\<bar>))) \<subseteq> set ''0123456789,''
   \<and> (outer_edges data = (lo, hi) \<and> idx \<le> 10 \<longrightarrow>
        snd (histogram data) ! idx = lo + of_nat idx * ((hi - lo) / 10))"
proof -
  have 1: "hd (map fst (rows t)) = NaN
      \<and> set (tl (map fst (rows t))) = (\<lambda>idx. Str (bin_label (snd (histogram data)) idx)) ` {0..<10}"
    if g: "generate_frequency_bins fieldname col normalise = Inr t" and h: "histogram_data col = Inr data"
  proof -
    from g h have "map fst (rows t) = map fst (bin_rows (count_nulls col) data)"
      by (auto simp: generate_frequency_bins_def Let_def labels_of_rows split: if_splits)
    then have l: "map fst (rows t) =
        NaN # map Str (map fst (labelled_bins (fst (histogram data)) (snd (histogram data))))"
      by (simp only: bin_rows_labels)
    have k: "set (map fst (labelled_bins (fst (histogram data)) (snd (histogram data))))
            = bin_label (snd (histogram data)) ` {0..<10}"
      by (simp only: keys_labelled_bins length_freqs)
    have "set (map Str (map fst (labelled_bins (fst (histogram data)) (snd (histogram data)))))
            = Str ` bin_label (snd (histogram data)) ` {0..<10}"
      using k by (metis list.set_map)
    then show ?thesis unfolding l by (simp add: image_image)
  qed
  have 2: "bin_label edges idx = format_f0 (edges ! idx) @ '' to <'' @ format_f0 (edges ! Suc idx)"
    by (simp add: bin_label_def)
  from 1 2 format_f0_shape [of x] histogram_edges [of data lo hi idx] show ?thesis by blast
qed

theorem C7_bin_labels_witness:
  "generate_frequency_bins ''x'' decades False =
     Inr \<lparr>label_var = ''bins|x'', value_var = ''count|x'',
             rows = [(NaN, Some 0), (Str '' 0 to < 10'', Some 1), (Str '' 10 to < 20'', Some 1),
                     (Str '' 20 to < 30'', Some 1), (Str '' 30 to < 40'', Some 1),
                     (Str '' 40 to < 50'', Some 1), (Str '' 50 to < 60'', Some 1),
                     (Str '' 60 to < 70'', Some 1), (Str '' 70 to < 80'', Some 1),
                     (Str '' 80 to < 90'', Some 1), (Str '' 90 to < 100'', Some 2)]\<rparr>
   \<and> histogram_data decades = Inr [0, 10, 20, 30, 40, 50, 60, 70, 80, 90, 100]
   \<and> outer_edges [0, 10, 20, 30, 40, 50, 60, 70, 80, 90, 100] = (0, 100)
   \<and> (3::nat) \<le> 10
   \<and> snd (histogram [0, 10, 20, 30, 40, 50, 60, 70, 80, 90, 100]) ! 3 = 0 + of_nat 3 * ((100 - 0) / 10)
   \<and> Str '' 20 to < 30'' \<in>
       (\<lambda>idx. Str (bin_label (snd (histogram [0, 10, 20, 30, 40, 50, 60, 70, 80, 90, 100])) idx)) ` {0..<10}"
proof -
  let ?t = "\<lparr>label_var = ''bins|x'', value_var = ''count|x'',
             rows = [(NaN, Some 0), (Str '' 0 to < 10'', Some 1), (Str '' 10 to < 20'', Some 1),
                     (Str '' 20 to < 30'', Some 1), (Str '' 30 to < 40'', Some 1),
                     (Str '' 40 to < 50'', Some 1), (Str '' 50 to < 60'', Some 1),
                     (Str '' 60 to < 70'', Some 1), (Str '' 70 to < 80'', Some 1),
                     (Str '' 80 to < 90'', Some 1), (Str '' 90 to < 100'', Some (2::rat))]\<rparr>"
  have g: "generate_frequency_bins ''x'' decades False = Inr ?t"
    unfolding decades_def by code_simp
  have h: "histogram_data decades = Inr [0, 10, 20, 30, 40, 50, 60, 70, 80, 90, 100]"
    unfolding decades_def by code_simp
  have o: "outer_edges [0, 10, 20, 30, 40, 50, 60, 70, 80, 90, 100] = (0, 100)"
    by code_simp
  have i: "(3::nat) \<le> 10" by simp
  note C7 = C7_bin_labels [of "''x''" decades False ?t "[0, 10, 20, 30, 40, 50, 60, 70, 80, 90, 100]"
      "[]" 3 0 0 100]
  from C7 g h have s: "set (tl (map fst (rows ?t))) =
      (\<lambda>idx. Str (bin_label (snd (histogram [0, 10, 20, 30, 40, 50, 60, 70, 80, 90, 100])) idx)) ` {0..<10}"
    by blast
  have "Str '' 20 to < 30'' \<in> set (tl (map fst (rows ?t)))" by simp
  with s have m: "Str '' 20 to < 30'' \<in>
       (\<lambda>idx. Str (bin_label (snd (histogram [0, 10, 20, 30, 40, 50, 60, 70, 80, 90, 100])) idx)) ` {0..<10}"
    by simp
  from C7 o i have e: "snd (histogram [0, 10, 20, 30, 40, 50, 60, 70, 80, 90, 100]) ! 3
      = 0 + of_nat 3 * ((100 - 0) / 10)"
    by blast
  from g h o i e m show ?thesis by blast
qed


end
